theory Spec2Isabelle
  imports
    Main
    "HOL-Library.Char_ord"
    "HOL-Library.List_Lexorder"
    "HOL-Library.Product_Lexorder"
    "HOL-Library.Multiset"
begin

section \<open>Strings and paths\<close>

text \<open>
  The source is Python 2: a \<open>str\<close> is a byte string, \<open>sorted\<close> compares byte strings
  lexicographically by byte value (a proper prefix is smaller) and tuples
  componentwise from the left.  \<^typ>\<open>string\<close> with the orders of
  \<open>Char_ord\<close>, \<open>List_Lexorder\<close> and \<open>Product_Lexorder\<close> is that order, and
  \<^const>\<open>sort\<close> is \<open>sorted\<close>.
\<close>

definition startswith :: "string \<Rightarrow> string \<Rightarrow> bool" where
  "startswith s pre = (take (length pre) s = pre)"

definition endswith :: "string \<Rightarrow> string \<Rightarrow> bool" where
  "endswith s suf = (length suf \<le> length s \<and> drop (length s - length suf) s = suf)"

text \<open>\<open>sep.join(xs)\<close>\<close>

fun str_join :: "string \<Rightarrow> string list \<Rightarrow> string" where
  "str_join sep [] = []"
| "str_join sep [x] = x"
| "str_join sep (x # y # ys) = x @ sep @ str_join sep (y # ys)"

text \<open>\<open>s.split(c)\<close> for a one-character separator.\<close>

fun split_sep :: "char \<Rightarrow> string \<Rightarrow> string list" where
  "split_sep c [] = [[]]"
| "split_sep c (x # xs) =
     (if x = c then [] # split_sep c xs
      else (case split_sep c xs of
              [] \<Rightarrow> [[x]]
            | y # ys \<Rightarrow> (x # y) # ys))"

text \<open>
  \<open>posixpath.join(a, *p)\<close>: an absolute component restarts the path, a separator is
  inserted unless the path so far is empty or already ends in one.
\<close>

definition join2 :: "string \<Rightarrow> string \<Rightarrow> string" where
  "join2 path b =
     (if startswith b ''/'' then b
      else if path = [] \<or> endswith path ''/'' then path @ b
      else path @ ''/'' @ b)"

definition path_join :: "string \<Rightarrow> string list \<Rightarrow> string" where
  "path_join a p = foldl join2 a p"

text \<open>\<open>posixpath.basename(p)\<close>: what follows the last slash.\<close>

definition basename :: "string \<Rightarrow> string" where
  "basename p = rev (takeWhile (\<lambda>c. c \<noteq> CHR ''/'') (rev p))"

text \<open>
  \<open>posixpath.dirname(p)\<close>: what precedes the last slash, with it; trailing slashes
  are then stripped unless the head consists of slashes only.
\<close>

definition dirname :: "string \<Rightarrow> string" where
  "dirname p =
     (let head = rev (dropWhile (\<lambda>c. c \<noteq> CHR ''/'') (rev p))
      in if head \<noteq> [] \<and> head \<noteq> replicate (length head) CHR ''/''
         then rev (dropWhile (\<lambda>c. c = CHR ''/'') (rev head))
         else head)"

text \<open>
  Modelled from the spec: \<open>safepath.munge\<close> of module \<open>teuthology.safepath\<close>, which
  \<open>suite.py\<close> imports and which is not among the sources.  The specification of the
  path sanitizer asks that redundant separators are collapsed and that components
  which could escape a base directory (\<open>..\<close>) are normalised: the path is split at
  slashes, empty and \<open>.\<close> segments are dropped, a leading dot of a segment becomes an
  underscore, and a path with no segment left becomes \<open>_\<close>.  The functions below take
  the sanitizer as a parameter \<open>munge\<close>; this definition instantiates it in the closed
  examples, on paths it leaves unchanged.
\<close>

definition safepath_munge :: "string \<Rightarrow> string" where
  "safepath_munge path =
     (let segments = filter (\<lambda>s. s \<noteq> [] \<and> s \<noteq> ''.'') (split_sep CHR ''/'' path);
          segments = map (\<lambda>s. if startswith s ''.'' then ''_'' @ drop 1 s else s) segments;
          segments = (if segments = [] then [''_''] else segments)
      in str_join ''/'' segments)"

section \<open>The file system, the scheduler and the command line\<close>

text \<open>The exceptions that leave the program, and its exit.\<close>

datatype error =
    SystemExit nat
  | CalledProcessError
  | KeyError string
  | IOError
  | YAMLError
  | TypeError
  | ValueError
  | UnicodeEncodeError

text \<open>
  A scalar of a YAML file, and a document of a YAML file: a mapping from keys to
  scalars, or a scalar.  A string holds the bytes of its UTF-8 encoding.
\<close>

datatype yval = YStr string | YBool bool | YInt int | YNull

datatype ydoc = YMapping "string \<rightharpoonup> yval" | YValue yval

text \<open>
  What the program reads of the file system: \<open>os.listdir\<close> (entry names, in an order
  the operating system chooses), \<open>os.path.isdir\<close>, \<open>os.path.exists\<close>, and the reading
  of a YAML file.  For the latter, \<open>load_all fs p\<close> is \<open>Inl e\<close> when \<open>file(p)\<close> raises
  \<open>e\<close>; otherwise it is \<open>Inr (docs, stop)\<close>, where \<open>docs\<close> are the documents that
  \<open>yaml.safe_load_all\<close> yields, in order, and \<open>stop\<close> is the exception that the parser
  raises after them, or \<open>None\<close> when the file ends well.
\<close>

record fs =
  listdir :: "string \<Rightarrow> string list"
  isdir :: "string \<Rightarrow> bool"
  exists :: "string \<Rightarrow> bool"
  load_all :: "string \<Rightarrow> error + ydoc list \<times> error option"

text \<open>The parsed arguments of \<open>main\<close>, with \<open>sys.argv[0]\<close>.\<close>

record suite_args =
  argv0 :: string
  verbose :: bool
  name :: string
  collections :: "string list"
  owner :: "string option"
  email :: "string option"
  timeout :: "string option"
  config :: "string list"

text \<open>Python's truth value of an optional string: \<open>None\<close> and \<open>''\<close> are false.\<close>

fun given :: "string option \<Rightarrow> bool" where
  "given None = False"
| "given (Some s) = (s \<noteq> [])"

section \<open>Generating the combinations of a collection\<close>

text \<open>
  \<open>itertools.product(*pools)\<close>, as the Python documentation defines it:
  \<open>result = [[]]\<close>, then for each pool
  \<open>result = [x + [y] for x in result for y in pool]\<close>.
\<close>

definition product_step :: "'a list list \<Rightarrow> 'a list \<Rightarrow> 'a list list" where
  "product_step result pool = concat (map (\<lambda>x. map (\<lambda>y. x @ [y]) pool) result)"

definition itertools_product :: "'a list list \<Rightarrow> 'a list list" where
  "itertools_product pools = foldl product_step [[]] pools"

text \<open>Lines 102--106: the facets of a collection.\<close>

definition facets :: "fs \<Rightarrow> string \<Rightarrow> string list" where
  "facets fs collection =
     filter (\<lambda>f. \<not> startswith f ''.'' \<and> isdir fs (path_join collection [f]))
       (sort (listdir fs collection))"

text \<open>Lines 110--111: the test an entry of a facet passes to be a config snippet.\<close>

definition is_snippet :: "string \<Rightarrow> bool" where
  "is_snippet entry = (\<not> startswith entry ''.'' \<and> endswith entry ''.yaml'')"

text \<open>Lines 108--112: the config snippets of one facet, as (facet, name, path).\<close>

definition snippets :: "fs \<Rightarrow> string \<Rightarrow> string \<Rightarrow> (string \<times> string \<times> string) list" where
  "snippets fs collection f =
     map (\<lambda>name. (f, name, path_join collection [f, name]))
       (filter is_snippet (sort (listdir fs (path_join collection [f]))))"

text \<open>Lines 107--114.\<close>

definition facet_configs :: "fs \<Rightarrow> string \<Rightarrow> (string \<times> string \<times> string) list list" where
  "facet_configs fs collection = map (snippets fs collection) (facets fs collection)"

text \<open>Line 115: the combinations, in the order the loop visits them.\<close>

definition combinations :: "fs \<Rightarrow> string \<Rightarrow> (string \<times> string \<times> string) list list" where
  "combinations fs collection = itertools_product (facet_configs fs collection)"

text \<open>Lines 116--119: the job description of a combination.\<close>

definition description :: "string \<Rightarrow> (string \<times> string \<times> string) list \<Rightarrow> string" where
  "description collection_name configs =
     ''collection:'' @ collection_name @ '' '' @
     str_join '' '' (map (\<lambda>(facet, name, path). facet @ '':'' @ name) configs)"

section \<open>Dispatching the jobs\<close>

text \<open>Lines 80--87.\<close>

definition base_arg :: "suite_args \<Rightarrow> string list" where
  "base_arg args =
     [path_join (dirname (argv0 args)) [''teuthology-schedule''], ''--name'', name args]
     @ (if verbose args then [''-v''] else [])
     @ (if given (owner args) then [''--owner'', the (owner args)] else [])"

text \<open>Lines 123--129: the command of one combination.\<close>

definition combo_arg ::
  "string list \<Rightarrow> string list \<Rightarrow> string \<Rightarrow> (string \<times> string \<times> string) list \<Rightarrow> string list" where
  "combo_arg base conf collection_name configs =
     base @ [''--description'', description collection_name configs, ''--'']
     @ conf @ map (\<lambda>(facet, name, path). path) configs"

text \<open>Lines 134--139: the command that ends the suite.\<close>

definition last_arg :: "suite_args \<Rightarrow> string list" where
  "last_arg args =
     base_arg args @ [''--last-in-suite'']
     @ (if given (email args) then [''--email'', the (email args)] else [])
     @ (if given (timeout args) then [''--timeout'', the (timeout args)] else [])"

text \<open>
  \<open>subprocess.check_call\<close>: the scheduler is an external program.  \<open>sched n arg\<close> says
  whether its invocation number \<open>n\<close> (counted from 0), with arguments \<open>arg\<close>, exits
  with status 0.  The state is the list of invocations issued so far; a nonzero status
  raises \<open>CalledProcessError\<close>, which nothing catches.
\<close>

type_synonym scheduler = "nat \<Rightarrow> string list \<Rightarrow> bool"

definition check_call ::
  "scheduler \<Rightarrow> string list list \<Rightarrow> string list \<Rightarrow> string list list \<times> (error + unit)" where
  "check_call sched tr arg =
     (tr @ [arg], if sched (length tr) arg then Inr () else Inl CalledProcessError)"

text \<open>Lines 115--132: the loop over the combinations of one collection.\<close>

fun schedule_combos ::
  "scheduler \<Rightarrow> string list \<Rightarrow> string list \<Rightarrow> string \<Rightarrow> (string \<times> string \<times> string) list list
   \<Rightarrow> string list list \<Rightarrow> string list list \<times> (error + unit)" where
  "schedule_combos sched base conf cname [] tr = (tr, Inr ())"
| "schedule_combos sched base conf cname (configs # rest) tr =
     (case check_call sched tr (combo_arg base conf cname configs) of
        (tr', Inl e) \<Rightarrow> (tr', Inl e)
      | (tr', Inr _) \<Rightarrow> schedule_combos sched base conf cname rest tr')"

text \<open>Lines 100--132: the loop over the sorted (collection, name) pairs.\<close>

fun schedule_collections ::
  "fs \<Rightarrow> scheduler \<Rightarrow> string list \<Rightarrow> string list \<Rightarrow> (string \<times> string) list
   \<Rightarrow> string list list \<Rightarrow> string list list \<times> (error + unit)" where
  "schedule_collections fs sched base conf [] tr = (tr, Inr ())"
| "schedule_collections fs sched base conf ((collection, cname) # rest) tr =
     (case schedule_combos sched base conf cname (combinations fs collection) tr of
        (tr', Inl e) \<Rightarrow> (tr', Inl e)
      | (tr', Inr _) \<Rightarrow> schedule_collections fs sched base conf rest tr')"

text \<open>Lines 94--100: the order in which the collections are processed.\<close>

definition processing_order :: "(string \<Rightarrow> string) \<Rightarrow> string list \<Rightarrow> (string \<times> string) list" where
  "processing_order munge cs = sort (map (\<lambda>collection. (collection, basename (munge collection))) cs)"

text \<open>
  \<open>main\<close>, from line 80 on: the invocations of the scheduler it issues, and how it
  ends.  A collection that is not a directory ends the program with status 1 before
  anything is scheduled.
\<close>

definition main ::
  "(string \<Rightarrow> string) \<Rightarrow> fs \<Rightarrow> scheduler \<Rightarrow> suite_args \<Rightarrow> string list list \<times> (error + unit)" where
  "main munge fs sched args =
     (if \<not> list_all (isdir fs) (collections args) then ([], Inl (SystemExit 1))
      else
        (case schedule_collections fs sched (base_arg args) (config args)
                (processing_order munge (collections args)) [] of
           (tr, Inl e) \<Rightarrow> (tr, Inl e)
         | (tr, Inr _) \<Rightarrow> check_call sched tr (last_arg args)))"

text \<open>
  The commands of one (collection, name) pair, in the order of the loop of line 115.
\<close>

definition collection_args ::
  "fs \<Rightarrow> string list \<Rightarrow> string list \<Rightarrow> string \<times> string \<Rightarrow> string list list" where
  "collection_args fs base conf c = map (combo_arg base conf (snd c)) (combinations fs (fst c))"


section \<open>Waiting for the results\<close>

text \<open>The parsed arguments of \<open>results\<close>; \<open>--timeout\<close> is an integer, 0 by default.\<close>

record results_args =
  r_email :: "string option"
  r_timeout :: int
  archive_dir :: string
  r_name :: string

text \<open>The path of the summary of job \<open>j\<close> (lines 228, 232--234 and 266).\<close>

definition summary_fn :: "string \<Rightarrow> string \<Rightarrow> string" where
  "summary_fn dir j = path_join dir [j, ''summary.yaml'']"

text \<open>Lines 225--229: the jobs that have no summary when \<open>results\<close> starts.\<close>

definition running_tests :: "fs \<Rightarrow> string \<Rightarrow> string list" where
  "running_tests fs dir =
     filter (\<lambda>f. \<not> startswith f ''.'' \<and> \<not> exists fs (summary_fn dir f))
       (sort (listdir fs dir))"

text \<open>
  Lines 230--241.  The archive is written by the jobs while the loop waits, so what
  exists depends on the time: \<open>ex t p\<close> says whether path \<open>p\<close> exists at time \<open>t\<close>.
  The clock counts seconds; \<open>time.sleep(10)\<close> advances it by 10 and is counted in
  \<open>sleeps\<close>; \<open>warned\<close> records the warning of line 238.  \<open>running_tests[-1]\<close> is the
  last element and \<open>pop()\<close> removes it.
\<close>

record poller =
  now :: int
  sleeps :: nat
  warned :: bool

function poll ::
  "(int \<Rightarrow> string \<Rightarrow> bool) \<Rightarrow> string \<Rightarrow> int \<Rightarrow> int \<Rightarrow> string list \<Rightarrow> poller
   \<Rightarrow> string list \<times> poller" where
  "poll ex dir tmo starttime running st =
     (if running \<noteq> [] \<and> tmo > 0 then
        if ex (now st) (summary_fn dir (last running)) then
          poll ex dir tmo starttime (butlast running) st
        else if now st - starttime > tmo then (running, st\<lparr>warned := True\<rparr>)
        else poll ex dir tmo starttime running (st\<lparr>now := now st + 10, sleeps := sleeps st + 1\<rparr>)
      else (running, st))"
  by pat_completeness auto
termination
  by (relation "measures
        [\<lambda>(ex, dir, tmo, starttime, running, st). length running,
         \<lambda>(ex, dir, tmo, starttime, running, st). nat (starttime + tmo + 1 - now st)]")
     auto

text \<open>Lines 225--241, in a world \<open>world\<close> that gives the file system at each time.\<close>

definition await :: "(int \<Rightarrow> fs) \<Rightarrow> string \<Rightarrow> int \<Rightarrow> int \<Rightarrow> string list \<times> poller" where
  "await world dir tmo starttime =
     poll (\<lambda>t. exists (world t)) dir tmo starttime (running_tests (world starttime) dir)
       \<lparr>now = starttime, sleeps = 0, warned = False\<rparr>"

section \<open>Aggregating the results\<close>

text \<open>Decimal digits, for \<open>str\<close> of an integer.\<close>

fun show_nat :: "nat \<Rightarrow> string" where
  "show_nat n =
     (if n < 10 then [''0123456789'' ! n]
      else show_nat (n div 10) @ [''0123456789'' ! (n mod 10)])"

declare show_nat.simps [simp del]

definition show_int :: "int \<Rightarrow> string" where
  "show_int i = (if i < 0 then ''-'' @ show_nat (nat (- i)) else show_nat (nat i))"

text \<open>What \<open>str\<close> writes for a value, and its truth value.\<close>

fun py_str :: "yval \<Rightarrow> string" where
  "py_str (YStr s) = s"
| "py_str (YBool b) = (if b then ''True'' else ''False'')"
| "py_str (YInt i) = show_int i"
| "py_str YNull = ''None''"

fun truthy :: "yval \<Rightarrow> bool" where
  "truthy (YStr s) = (s \<noteq> [])"
| "truthy (YBool b) = b"
| "truthy (YInt i) = (i \<noteq> 0)"
| "truthy YNull = False"

text \<open>
  \<open>format\<close> of a value into a byte-string template.  PyYAML gives a scalar with a
  character outside ASCII as a \<open>unicode\<close> object, which \<open>str.format\<close> encodes with the
  ASCII codec: that raises \<open>UnicodeEncodeError\<close>.  A byte of a UTF-8 string is outside
  ASCII when its highest bit is set.
\<close>

definition ascii :: "string \<Rightarrow> bool" where
  "ascii s = list_all (\<lambda>c. \<not> digit7 c) s"

fun py_format :: "yval \<Rightarrow> error + string" where
  "py_format (YStr s) = (if ascii s then Inr s else Inl UnicodeEncodeError)"
| "py_format (YBool b) = Inr (py_str (YBool b))"
| "py_format (YInt i) = Inr (py_str (YInt i))"
| "py_format YNull = Inr (py_str YNull)"

text \<open>
  \<open>summary.update(new)\<close> (line 274): a mapping overrides the keys it has; \<open>None\<close>, a
  boolean and a number are not iterable (\<open>TypeError\<close>); a string is iterated character
  by character, none of which is a pair (\<open>ValueError\<close>), unless it is empty.
\<close>

fun dict_update :: "(string \<rightharpoonup> yval) \<Rightarrow> ydoc \<Rightarrow> error + (string \<rightharpoonup> yval)" where
  "dict_update m (YMapping new) = Inr (m ++ new)"
| "dict_update m (YValue (YStr s)) = (if s = [] then Inr m else Inl ValueError)"
| "dict_update m (YValue (YBool b)) = Inl TypeError"
| "dict_update m (YValue (YInt i)) = Inl TypeError"
| "dict_update m (YValue YNull) = Inl TypeError"

text \<open>Lines 273--274: the loop over the documents.\<close>

fun update_all :: "(string \<rightharpoonup> yval) \<Rightarrow> ydoc list \<Rightarrow> error + (string \<rightharpoonup> yval)" where
  "update_all m [] = Inr m"
| "update_all m (new # rest) =
     (case dict_update m new of
        Inl e \<Rightarrow> Inl e
      | Inr m' \<Rightarrow> update_all m' rest)"

text \<open>
  Lines 270--274: the summary file is opened and its documents are merged in order, a
  later document overriding the keys of an earlier one.  Opening, parsing and merging
  can each raise, and nothing catches it.
\<close>

definition load_summary :: "fs \<Rightarrow> string \<Rightarrow> string \<Rightarrow> error + (string \<rightharpoonup> yval)" where
  "load_summary fs dir j =
     (case load_all fs (summary_fn dir j) of
        Inl e \<Rightarrow> Inl e
      | Inr (docs, stop) \<Rightarrow>
          (case update_all Map.empty docs of
             Inl e \<Rightarrow> Inl e
           | Inr m \<Rightarrow> (case stop of None \<Rightarrow> Inr m | Some e \<Rightarrow> Inl e)))"

text \<open>Lines 257--261: the lists the loop fills.\<close>

record report =
  descriptions :: "string list"
  failures :: "string list"
  num_failures :: nat
  unfinished :: "string list"
  passed :: "string list"

definition empty_report :: report where
  "empty_report = \<lparr>descriptions = [], failures = [], num_failures = 0, unfinished = [], passed = []\<rparr>"

text \<open>
  Lines 264--288: the body of the loop for one entry \<open>j\<close>.  Loading the summary can
  raise; \<open>summary['description']\<close> and \<open>summary['success']\<close> raise \<open>KeyError\<close> on a
  missing key; formatting the description (line 275) and the failure reason (line 286)
  can raise \<open>UnicodeEncodeError\<close>.  Nothing catches any of these.
\<close>

definition aggregate_job :: "fs \<Rightarrow> string \<Rightarrow> report \<Rightarrow> string \<Rightarrow> error + report" where
  "aggregate_job fs dir st j =
     (if startswith j ''.'' then Inr st
      else if \<not> exists fs (summary_fn dir j) then Inr (st\<lparr>unfinished := unfinished st @ [j]\<rparr>)
      else
        (case load_summary fs dir j of
           Inl e \<Rightarrow> Inl e
         | Inr m \<Rightarrow>
        (case m ''description'' of
           None \<Rightarrow> Inl (KeyError ''description'')
         | Some d \<Rightarrow>
        (case py_format d of
           Inl e \<Rightarrow> Inl e
         | Inr text_d \<Rightarrow>
             let desc = j @ '': '' @ text_d;
                 st1 = st\<lparr>descriptions := descriptions st @ [desc]\<rparr>
             in (case m ''success'' of
                   None \<Rightarrow> Inl (KeyError ''success'')
                 | Some s \<Rightarrow>
                     if truthy s then Inr (st1\<lparr>passed := passed st1 @ [desc]\<rparr>)
                     else
                       let st2 = st1\<lparr>failures := failures st1 @ [desc],
                                     num_failures := num_failures st1 + 1\<rparr>
                       in (case m ''failure_reason'' of
                             None \<Rightarrow> Inr st2
                           | Some r \<Rightarrow>
                               (case py_format r of
                                  Inl e \<Rightarrow> Inl e
                                | Inr text_r \<Rightarrow>
                                    Inr (st2\<lparr>failures := failures st2 @ [''    '' @ text_r]\<rparr>))))))))"

text \<open>Lines 263--288: the loop, which an exception leaves.\<close>

fun aggregate_jobs :: "fs \<Rightarrow> string \<Rightarrow> string list \<Rightarrow> report \<Rightarrow> error + report" where
  "aggregate_jobs fs dir [] st = Inr st"
| "aggregate_jobs fs dir (j # js) st =
     (case aggregate_job fs dir st j of
        Inl e \<Rightarrow> Inl e
      | Inr st' \<Rightarrow> aggregate_jobs fs dir js st')"

text \<open>Lines 257--288.\<close>

definition all_jobs :: "fs \<Rightarrow> string \<Rightarrow> string list" where
  "all_jobs fs dir = sort (listdir fs dir)"

definition aggregate :: "fs \<Rightarrow> string \<Rightarrow> error + report" where
  "aggregate fs dir = aggregate_jobs fs dir (all_jobs fs dir) empty_report"

section \<open>Composing the report\<close>

definition nl :: string where
  "nl = [CHR 0x0A]"

text \<open>Lines 293--300 and 317.\<close>

definition subject :: "string \<Rightarrow> report \<Rightarrow> string" where
  "subject suite rep =
     (if failures rep \<noteq> [] \<or> unfinished rep \<noteq> [] then
        show_nat (num_failures rep) @ '' failed, '' @
        show_nat (length (unfinished rep)) @ '' possibly hung, and '' @
        show_nat (length (passed rep)) @ '' passed tests in '' @ suite
      else ''All tests passed in '' @ suite @ ''!'')"

text \<open>Lines 301--315 and 318.\<close>

definition body :: "int \<Rightarrow> report \<Rightarrow> string" where
  "body tmo rep =
     (if failures rep \<noteq> [] \<or> unfinished rep \<noteq> [] then
        nl @ ''The following tests failed:'' @ nl @ nl @
        str_join nl (failures rep) @ nl @ nl @
        ''These tests may be hung (did not finish in '' @ show_int tmo @
        '' seconds after the last test in the suite):'' @ nl @
        str_join nl (unfinished rep) @ nl @ nl @
        ''These tests passed:'' @ nl @
        str_join nl (passed rep)
      else str_join nl (descriptions rep))"

record message =
  msg_subject :: string
  msg_body :: string
  msg_from :: string
  msg_to :: string

text \<open>
  \<open>results\<close>, from line 225 on: the message it sends, if any.  \<open>sender\<close> is the
  configured \<open>results_sending_email\<close>.  The jobs are aggregated in the file system as it
  is when the wait ends.  Without \<open>--email\<close> nothing is composed (line 290).  The
  coverage report of lines 243--255 is started as a separate process that \<open>results\<close>
  does not wait for; it takes no part in what follows and is left out.
\<close>

definition results ::
  "(int \<Rightarrow> fs) \<Rightarrow> int \<Rightarrow> string \<Rightarrow> results_args \<Rightarrow> error + message option" where
  "results world starttime sender args =
     (let (running, st) = await world (archive_dir args) (r_timeout args) starttime
      in (case aggregate (world (now st)) (archive_dir args) of
            Inl e \<Rightarrow> Inl e
          | Inr rep \<Rightarrow>
              if \<not> given (r_email args) then Inr None
              else Inr (Some \<lparr>msg_subject = subject (r_name args) rep,
                               msg_body = body (r_timeout args) rep,
                               msg_from = sender,
                               msg_to = the (r_email args)\<rparr>)))"

section \<open>Example inputs\<close>

text \<open>
  The collection \<open>basic\<close> of the specification's scenario: facets \<open>clusters\<close> (snippets
  \<open>fixed.yaml\<close>, \<open>three.yaml\<close>) and \<open>tasks\<close> (snippet \<open>smoke.yaml\<close>), listed by the
  operating system in an order that is not sorted.
\<close>

definition fs_basic :: fs where
  "fs_basic =
     \<lparr>listdir = (\<lambda>p. if p = ''basic'' then [''tasks'', ''clusters'']
                     else if p = ''basic/clusters'' then [''three.yaml'', ''fixed.yaml'']
                     else if p = ''basic/tasks'' then [''smoke.yaml'']
                     else []),
      isdir = (\<lambda>p. p = ''basic'' \<or> p = ''basic/clusters'' \<or> p = ''basic/tasks''),
      exists = (\<lambda>p. False),
      load_all = (\<lambda>p. Inl IOError)\<rparr>"

text \<open>A collection \<open>c\<close> whose snippet names contain spaces.\<close>

definition fs_spaces :: fs where
  "fs_spaces =
     \<lparr>listdir = (\<lambda>p. if p = ''c'' then [''a'', ''b'']
                     else if p = ''c/a'' then [''x.yaml'', ''x.yaml b:y.yaml'']
                     else if p = ''c/b'' then [''y.yaml b:z.yaml'', ''z.yaml'']
                     else []),
      isdir = (\<lambda>p. p = ''c'' \<or> p = ''c/a'' \<or> p = ''c/b''),
      exists = (\<lambda>p. False),
      load_all = (\<lambda>p. Inl IOError)\<rparr>"

text \<open>Two collections without facets, given as \<open>b/x\<close> and \<open>a/y\<close>.\<close>

definition fs_two :: fs where
  "fs_two =
     \<lparr>listdir = (\<lambda>p. []),
      isdir = (\<lambda>p. p = ''a/y'' \<or> p = ''b/x''),
      exists = (\<lambda>p. False),
      load_all = (\<lambda>p. Inl IOError)\<rparr>"

text \<open>A run over them.\<close>

definition args_two :: suite_args where
  "args_two =
     \<lparr>argv0 = ''bin/teuthology-suite'', verbose = False, name = ''nightly'',
      collections = [''b/x'', ''a/y''], owner = None, email = None, timeout = None,
      config = []\<rparr>"


text \<open>A scheduler that accepts every job.\<close>

definition accept :: scheduler where
  "accept n arg = True"


text \<open>The collection \<open>basic\<close>, listed in sorted order.\<close>

definition fs_basic_sorted :: fs where
  "fs_basic_sorted =
     \<lparr>listdir = (\<lambda>p. if p = ''basic'' then [''clusters'', ''tasks'']
                     else if p = ''basic/clusters'' then [''fixed.yaml'', ''three.yaml'']
                     else if p = ''basic/tasks'' then [''smoke.yaml'']
                     else []),
      isdir = (\<lambda>p. p = ''basic'' \<or> p = ''basic/clusters'' \<or> p = ''basic/tasks''),
      exists = (\<lambda>p. False),
      load_all = (\<lambda>p. Inl IOError)\<rparr>"

text \<open>A collection \<open>e\<close> whose facet \<open>tasks\<close> holds no snippet, and a collection \<open>z\<close> without facets.\<close>

definition fs_empty :: fs where
  "fs_empty =
     \<lparr>listdir = (\<lambda>p. if p = ''e'' then [''clusters'', ''tasks'']
                     else if p = ''e/clusters'' then [''fixed.yaml'']
                     else if p = ''e/tasks'' then [''README'']
                     else if p = ''z'' then [''.git'', ''notes.txt'']
                     else []),
      isdir = (\<lambda>p. p = ''e'' \<or> p = ''e/clusters'' \<or> p = ''e/tasks'' \<or> p = ''z'' \<or> p = ''z/.git''),
      exists = (\<lambda>p. False),
      load_all = (\<lambda>p. Inl IOError)\<rparr>"

section \<open>Classifying the jobs of an archive\<close>

text \<open>
  What the loop of lines 263--288 decides about an entry \<open>j\<close> of the archive: it is
  finished when it is not hidden and its summary exists, unfinished when it is not
  hidden and its summary does not exist, malformed when it is finished and its summary
  loads and lacks \<open>description\<close> or \<open>success\<close>, failed when it is finished and
  \<open>success\<close> is present and false.  \<open>summary\<close> is the merged summary of a job whose
  summary loads (and has no key otherwise); \<open>desc_line\<close> is the line of lines 275--278
  for a description that formats, and \<open>job_line\<close> the line of a finished job.
\<close>

definition summary :: "fs \<Rightarrow> string \<Rightarrow> string \<Rightarrow> string \<rightharpoonup> yval" where
  "summary fs dir j = (case load_summary fs dir j of Inl e \<Rightarrow> Map.empty | Inr m \<Rightarrow> m)"

definition desc_line :: "string \<Rightarrow> yval \<Rightarrow> string" where
  "desc_line j d = j @ '': '' @ py_str d"

definition finished :: "fs \<Rightarrow> string \<Rightarrow> string \<Rightarrow> bool" where
  "finished fs dir j = (\<not> startswith j ''.'' \<and> exists fs (summary_fn dir j))"

definition is_unfinished :: "fs \<Rightarrow> string \<Rightarrow> string \<Rightarrow> bool" where
  "is_unfinished fs dir j = (\<not> startswith j ''.'' \<and> \<not> exists fs (summary_fn dir j))"


definition failed :: "fs \<Rightarrow> string \<Rightarrow> string \<Rightarrow> bool" where
  "failed fs dir j =
     (finished fs dir j \<and>
      (case summary fs dir j ''success'' of None \<Rightarrow> False | Some s \<Rightarrow> \<not> truthy s))"

definition has_reason :: "fs \<Rightarrow> string \<Rightarrow> string \<Rightarrow> bool" where
  "has_reason fs dir j = (summary fs dir j ''failure_reason'' \<noteq> None)"

definition job_line :: "fs \<Rightarrow> string \<Rightarrow> string \<Rightarrow> string" where
  "job_line fs dir j = desc_line j (the (summary fs dir j ''description''))"

text \<open>
  The archive of the specification's scenario: job 1 passed, job 2 has no summary, job
  3 failed with the reason \<open>timeout\<close>, given in a second document of its summary; and a
  hidden entry.
\<close>

definition fs_archive :: fs where
  "fs_archive =
     \<lparr>listdir = (\<lambda>p. if p = ''arch'' then [''3'', ''.lock'', ''1'', ''2''] else []),
      isdir = (\<lambda>p. p = ''arch'' \<or> p = ''arch/1'' \<or> p = ''arch/2'' \<or> p = ''arch/3''),
      exists = (\<lambda>p. p = ''arch/1/summary.yaml'' \<or> p = ''arch/3/summary.yaml''),
      load_all = (\<lambda>p.
        if p = ''arch/1/summary.yaml''
        then Inr ([YMapping
                     [''description'' \<mapsto> YStr ''collection:basic clusters:fixed.yaml tasks:smoke.yaml'',
                      ''success'' \<mapsto> YBool True]], None)
        else if p = ''arch/3/summary.yaml''
        then Inr ([YMapping
                     [''description'' \<mapsto> YStr ''collection:basic clusters:three.yaml tasks:smoke.yaml'',
                      ''success'' \<mapsto> YBool False],
                   YMapping [''failure_reason'' \<mapsto> YStr ''timeout'']], None)
        else Inl IOError)\<rparr>"


text \<open>
  An archive whose only job has a summary that holds a mapping with both required
  fields, followed by an empty document.
\<close>

definition fs_null_document :: fs where
  "fs_null_document =
     \<lparr>listdir = (\<lambda>p. if p = ''arch'' then [''1''] else []),
      isdir = (\<lambda>p. p = ''arch'' \<or> p = ''arch/1''),
      exists = (\<lambda>p. p = ''arch/1/summary.yaml''),
      load_all = (\<lambda>p.
        if p = ''arch/1/summary.yaml''
        then Inr ([YMapping [''description'' \<mapsto> YStr ''collection:basic'',
                             ''success'' \<mapsto> YBool True],
                   YValue YNull], None)
        else Inl IOError)\<rparr>"



section \<open>Properties of the product\<close>

lemma product_step_length: "length (product_step res p) = length res * length p"
  by (induction res) (simp_all add: product_step_def)

lemma itertools_product_snoc:
  "itertools_product (pools @ [p]) = product_step (itertools_product pools) p"
  by (simp add: itertools_product_def)

lemma itertools_product_length:
  "length (itertools_product pools) = prod_list (map length pools)"
  by (induction pools rule: rev_induct)
     (simp_all add: itertools_product_snoc product_step_length, simp add: itertools_product_def)

lemma append_fun_Nil: "(@) [] = (\<lambda>c. c)"
  by (rule ext) simp

lemma append_fun_snoc: "(@) (a @ [x]) = (\<lambda>c. a @ x # c)"
  by (rule ext) simp

lemma foldl_product_step:
  "foldl product_step res pools = concat (map (\<lambda>x. map (\<lambda>c. x @ c) (product_lists pools)) res)"
proof (induction pools arbitrary: res)
  case Nil
  show ?case by (induction res) (simp_all add: append_fun_Nil)
next
  case (Cons p ps)
  have "concat (map (\<lambda>x. map (\<lambda>c. x @ c) (product_lists ps)) (product_step res p))
      = concat (map (\<lambda>x. map (\<lambda>c. x @ c) (product_lists (p # ps))) res)"
    by (induction res) (simp_all add: product_step_def map_concat comp_def append_fun_snoc)
  with Cons show ?case by simp
qed

lemma itertools_product_eq: "itertools_product pools = product_lists pools"
  by (simp add: itertools_product_def foldl_product_step append_fun_Nil)

lemma product_step_nth:
  assumes "k < length res * length p"
  shows "product_step res p ! k = res ! (k div length p) @ [p ! (k mod length p)]"
  using assms
proof (induction res arbitrary: k)
  case Nil
  then show ?case by simp
next
  case (Cons r rs)
  have step: "product_step (r # rs) p = map (\<lambda>y. r @ [y]) p @ product_step rs p"
    by (simp add: product_step_def)
  show ?case
  proof (cases "k < length p")
    case True
    then show ?thesis by (simp add: step nth_append)
  next
    case False
    then have k: "k = (k - length p) + length p" by simp
    from False Cons.prems have lt: "k - length p < length rs * length p" by simp
    have pos: "0 < length p" using Cons.prems by (cases p) simp_all
    have d: "k div length p = Suc ((k - length p) div length p)"
      using False pos by (simp add: le_div_geq)
    have m: "k mod length p = (k - length p) mod length p"
      using False by (simp add: le_mod_geq)
    show ?thesis using False Cons.IH [OF lt] by (simp add: step nth_append d m)
  qed
qed

lemma itertools_product_elem_length:
  "c \<in> set (itertools_product pools) \<Longrightarrow> length c = length pools"
  by (simp add: itertools_product_eq in_set_product_lists_length)

lemma itertools_product_nth:
  "k < length (itertools_product pools) \<Longrightarrow> j < length pools \<Longrightarrow>
   itertools_product pools ! k ! j =
     pools ! j ! ((k div prod_list (map length (drop (Suc j) pools))) mod length (pools ! j))"
proof (induction pools arbitrary: k j rule: rev_induct)
  case Nil
  then show ?case by simp
next
  case (snoc p pools)
  let ?res = "itertools_product pools"
  from snoc.prems(1) have k: "k < length ?res * length p"
    by (simp add: itertools_product_snoc product_step_length)
  then have pos: "0 < length p" by (cases p) simp_all
  from k have kd: "k div length p < length ?res"
    by (simp add: less_mult_imp_div_less)
  then have len: "length (?res ! (k div length p)) = length pools"
    by (simp add: itertools_product_elem_length)
  have nth: "itertools_product (pools @ [p]) ! k = ?res ! (k div length p) @ [p ! (k mod length p)]"
    by (simp add: itertools_product_snoc product_step_nth [OF k])
  show ?case
  proof (cases "j < length pools")
    case True
    have "k div (prod_list (map length (drop (Suc j) pools)) * length p)
        = k div length p div prod_list (map length (drop (Suc j) pools))"
      by (simp add: div_mult2_eq mult.commute)
    with True snoc.IH [OF kd True] show ?thesis
      by (simp add: nth len nth_append)
  next
    case False
    with snoc.prems(2) have "j = length pools" by simp
    then show ?thesis by (simp add: nth len nth_append)
  qed
qed

section \<open>Properties of the combinations\<close>

lemma length_filter_sort: "length (filter P (sort xs)) = length (filter P xs)"
proof -
  have "mset (filter P (sort xs)) = mset (filter P xs)" by simp
  then show ?thesis by (rule mset_eq_length)
qed

lemma snippets_length:
  "length (snippets fs collection f) = length (filter is_snippet (listdir fs (path_join collection [f])))"
  by (simp add: snippets_def length_filter_sort)

lemma combinations_length:
  "length (combinations fs collection) =
     prod_list (map (\<lambda>f. length (filter is_snippet (listdir fs (path_join collection [f]))))
       (facets fs collection))"
  by (simp add: combinations_def itertools_product_length facet_configs_def comp_def snippets_length)

lemma snippets_distinct:
  assumes "distinct (listdir fs (path_join collection [f]))"
  shows "distinct (snippets fs collection f)"
proof -
  have "inj_on (\<lambda>n. (f, n, path_join collection [f, n])) A" for A
    by (rule inj_onI) simp
  with assms show ?thesis by (simp add: snippets_def distinct_map)
qed

lemma combinations_distinct:
  assumes "\<And>f. f \<in> set (facets fs collection) \<Longrightarrow> distinct (listdir fs (path_join collection [f]))"
  shows "distinct (combinations fs collection)"
  unfolding combinations_def itertools_product_eq facet_configs_def
  by (rule distinct_product_lists) (auto simp: snippets_distinct assms)



lemma unsplit:
  assumes "a @ c # r = a' @ c # r'" "c \<notin> set a" "c \<notin> set a'"
  shows "a = a' \<and> r = r'"
proof -
  have "takeWhile (\<lambda>x. x \<noteq> c) (a @ c # r) = a" "takeWhile (\<lambda>x. x \<noteq> c) (a' @ c # r') = a'"
    using assms(2,3) by (auto simp add: takeWhile_tail)
  with assms(1) have "a = a'" by simp
  with assms(1) show ?thesis by simp
qed

lemma str_join_inj:
  assumes "length ns = length F" "length ns' = length F"
    and "\<forall>n \<in> set ns \<union> set ns'. CHR '' '' \<notin> set n"
    and "str_join '' '' (map2 (\<lambda>f n. f @ '':'' @ n) F ns) = str_join '' '' (map2 (\<lambda>f n. f @ '':'' @ n) F ns')"
  shows "ns = ns'"
  using assms
proof (induction F arbitrary: ns ns')
  case Nil
  then show ?case by simp
next
  case (Cons f F)
  from Cons.prems(1) obtain n ns1 where ns: "ns = n # ns1" by (cases ns) simp_all
  from Cons.prems(2) obtain n' ns1' where ns': "ns' = n' # ns1'" by (cases ns') simp_all
  have len: "length ns1 = length F" "length ns1' = length F"
    using Cons.prems(1,2) by (simp_all add: ns ns')
  have nosp: "CHR '' '' \<notin> set n" "CHR '' '' \<notin> set n'"
    "\<forall>n \<in> set ns1 \<union> set ns1'. CHR '' '' \<notin> set n"
    using Cons.prems(3) by (simp_all add: ns ns')
  show ?case
  proof (cases F)
    case Nil
    with len have "ns1 = []" "ns1' = []" by simp_all
    with Cons.prems(4) show ?thesis by (simp add: ns ns' Nil)
  next
    case F: (Cons g G)
    from len F obtain m ms where ms: "ns1 = m # ms" by (cases ns1) simp_all
    from len F obtain m' ms' where ms': "ns1' = m' # ms'" by (cases ns1') simp_all
    let ?r = "str_join '' '' (map2 (\<lambda>f n. f @ '':'' @ n) F ns1)"
    let ?r' = "str_join '' '' (map2 (\<lambda>f n. f @ '':'' @ n) F ns1')"
    have e: "str_join '' '' (map2 (\<lambda>f n. f @ '':'' @ n) (f # F) ns) = f @ '':'' @ n @ CHR '' '' # ?r"
      by (simp add: ns ms F)
    have e': "str_join '' '' (map2 (\<lambda>f n. f @ '':'' @ n) (f # F) ns') = f @ '':'' @ n' @ CHR '' '' # ?r'"
      by (simp add: ns' ms' F)
    from Cons.prems(4) have "n @ CHR '' '' # ?r = n' @ CHR '' '' # ?r'"
      unfolding e e' by simp
    then have "n = n' \<and> ?r = ?r'" using nosp(1,2) by (rule unsplit)
    moreover from this have "ns1 = ns1'"
      using Cons.IH [OF len nosp(3)] by simp
    ultimately show ?thesis by (simp add: ns ns')
  qed
qed


lemma combo_shape:
  assumes "list_all2 (\<lambda>x ys. x \<in> set ys) c (map (snippets fs collection) F)"
  shows "c = map2 (\<lambda>f n. (f, n, path_join collection [f, n])) F (map (\<lambda>x. fst (snd x)) c)"
  using assms
proof (induction F arbitrary: c)
  case Nil
  then show ?case by simp
next
  case (Cons f F)
  from Cons.prems obtain x c1 where c: "c = x # c1" "x \<in> set (snippets fs collection f)"
    "list_all2 (\<lambda>x ys. x \<in> set ys) c1 (map (snippets fs collection) F)"
    by (cases c) auto
  from c(2) have "x = (f, fst (snd x), path_join collection [f, fst (snd x)])"
    by (auto simp: snippets_def)
  with Cons.IH [OF c(3)] c(1) show ?case by simp
qed

lemma combo_names:
  assumes "list_all2 (\<lambda>x ys. x \<in> set ys) c (map (snippets fs collection) F)" "x \<in> set c"
  shows "\<exists>f \<in> set F. fst (snd x) \<in> set (listdir fs (path_join collection [f])) \<and> is_snippet (fst (snd x))"
  using assms
proof (induction F arbitrary: c)
  case Nil
  then show ?case by simp
next
  case (Cons f F)
  from Cons.prems(1) obtain y c1 where c: "c = y # c1" "y \<in> set (snippets fs collection f)"
    "list_all2 (\<lambda>x ys. x \<in> set ys) c1 (map (snippets fs collection) F)"
    by (cases c) auto
  show ?case
  proof (cases "x = y")
    case True
    with c(2) show ?thesis by (auto simp: snippets_def)
  next
    case False
    with Cons.prems(2) c(1) have "x \<in> set c1" by simp
    from Cons.IH [OF c(3) this] show ?thesis by auto
  qed
qed

lemma combinations_list_all2:
  "c \<in> set (combinations fs collection) \<Longrightarrow>
   list_all2 (\<lambda>x ys. x \<in> set ys) c (map (snippets fs collection) (facets fs collection))"
  by (simp add: combinations_def itertools_product_eq product_lists_set facet_configs_def)

lemma description_shape:
  assumes "c \<in> set (combinations fs collection)"
  shows "description cname c = ''collection:'' @ cname @ '' '' @
     str_join '' '' (map2 (\<lambda>f n. f @ '':'' @ n) (facets fs collection) (map (\<lambda>x. fst (snd x)) c))"
proof -
  let ?F = "facets fs collection" and ?ns = "map (\<lambda>x. fst (snd x)) c"
  let ?g = "\<lambda>(facet, name, path). facet @ '':'' @ name"
  have "c = map2 (\<lambda>f n. (f, n, path_join collection [f, n])) ?F ?ns"
    using combinations_list_all2 [OF assms] by (rule combo_shape)
  then have "map ?g c = map ?g (map2 (\<lambda>f n. (f, n, path_join collection [f, n])) ?F ?ns)"
    by simp
  also have "\<dots> = map2 (\<lambda>f n. f @ '':'' @ n) ?F ?ns"
    by (simp add: map_zip_map2 case_prod_unfold comp_def)
  finally show ?thesis by (simp add: description_def)
qed

lemma description_inj:
  assumes c: "c \<in> set (combinations fs collection)" and c': "c' \<in> set (combinations fs collection)"
    and nosp: "\<forall>f \<in> set (facets fs collection).
        \<forall>n \<in> set (listdir fs (path_join collection [f])). is_snippet n \<longrightarrow> CHR '' '' \<notin> set n"
    and eq: "description cname c = description cname c'"
  shows "c = c'"
proof -
  let ?F = "facets fs collection"
  let ?ns = "map (\<lambda>x. fst (snd x)) c" and ?ns' = "map (\<lambda>x. fst (snd x)) c'"
  note l = combinations_list_all2 [OF c] and l' = combinations_list_all2 [OF c']
  have len: "length ?ns = length ?F" "length ?ns' = length ?F"
    using l l' by (simp_all add: list_all2_lengthD)
  have sp: "\<forall>n \<in> set ?ns \<union> set ?ns'. CHR '' '' \<notin> set n"
    using combo_names [OF l] combo_names [OF l'] nosp by fastforce
  have "str_join '' '' (map2 (\<lambda>f n. f @ '':'' @ n) ?F ?ns) = str_join '' '' (map2 (\<lambda>f n. f @ '':'' @ n) ?F ?ns')"
    using eq by (simp add: description_shape [OF c] description_shape [OF c'])
  with len sp have "?ns = ?ns'" by (rule str_join_inj)
  with combo_shape [OF l] combo_shape [OF l'] show ?thesis by simp
qed

section \<open>Properties of the dispatch\<close>

lemma check_call_cases:
  "check_call sched tr arg = (tr @ [arg], Inr ()) \<or> check_call sched tr arg = (tr @ [arg], Inl CalledProcessError)"
  by (simp add: check_call_def)

lemma schedule_combos_result:
  "schedule_combos sched base conf cname cs tr = (tr', r) \<Longrightarrow>
   (r = Inr () \<and> tr' = tr @ map (combo_arg base conf cname) cs) \<or> r = Inl CalledProcessError"
proof (induction cs arbitrary: tr)
  case Nil
  then show ?case by simp
next
  case (Cons c cs)
  from check_call_cases [of sched tr "combo_arg base conf cname c"] show ?case
  proof
    assume "check_call sched tr (combo_arg base conf cname c) = (tr @ [combo_arg base conf cname c], Inr ())"
    with Cons.prems have "schedule_combos sched base conf cname cs (tr @ [combo_arg base conf cname c]) = (tr', r)"
      by simp
    from Cons.IH [OF this] show ?thesis by simp
  next
    assume "check_call sched tr (combo_arg base conf cname c) = (tr @ [combo_arg base conf cname c], Inl CalledProcessError)"
    with Cons.prems show ?thesis by simp
  qed
qed

lemma schedule_collections_result:
  "schedule_collections fs sched base conf cs tr = (tr', r) \<Longrightarrow>
   (r = Inr () \<and> tr' = tr @ concat (map (collection_args fs base conf) cs)) \<or> r = Inl CalledProcessError"
proof (induction cs arbitrary: tr)
  case Nil
  then show ?case by simp
next
  case (Cons c cs)
  obtain collection cname where c: "c = (collection, cname)" by (cases c)
  obtain tr1 r1 where s: "schedule_combos sched base conf cname (combinations fs collection) tr = (tr1, r1)"
    by (cases "schedule_combos sched base conf cname (combinations fs collection) tr")
  from schedule_combos_result [OF s] show ?case
  proof
    assume a: "r1 = Inr () \<and> tr1 = tr @ map (combo_arg base conf cname) (combinations fs collection)"
    with Cons.prems s c have "schedule_collections fs sched base conf cs tr1 = (tr', r)"
      by simp
    from Cons.IH [OF this] a show ?thesis by (simp add: c collection_args_def)
  next
    assume "r1 = Inl CalledProcessError"
    with Cons.prems s c show ?thesis by simp
  qed
qed

lemma main_result:
  assumes "list_all (isdir fs) (collections args)" "main munge fs sched args = (tr, r)"
  shows "(r = Inr () \<and>
          tr = concat (map (collection_args fs (base_arg args) (config args))
                        (processing_order munge (collections args))) @ [last_arg args])
         \<or> r = Inl CalledProcessError"
proof -
  let ?cs = "processing_order munge (collections args)"
  obtain tr1 r1 where s: "schedule_collections fs sched (base_arg args) (config args) ?cs [] = (tr1, r1)"
    by (cases "schedule_collections fs sched (base_arg args) (config args) ?cs []")
  from schedule_collections_result [OF s] show ?thesis
  proof
    assume a: "r1 = Inr () \<and> tr1 = [] @ concat (map (collection_args fs (base_arg args) (config args)) ?cs)"
    with assms s have "check_call sched tr1 (last_arg args) = (tr, r)"
      by (simp add: main_def)
    with a check_call_cases [of sched tr1 "last_arg args"] show ?thesis by auto
  next
    assume "r1 = Inl CalledProcessError"
    with assms s show ?thesis by (simp add: main_def)
  qed
qed





section \<open>Properties of the order\<close>

lemma sort_cong_mset: "mset xs = mset ys \<Longrightarrow> sort xs = sort (ys::'a::linorder list)"
  by (rule properties_for_sort) simp_all

lemma sorted_fst: "sorted xs \<Longrightarrow> sorted (map fst (xs::('a::linorder \<times> 'b::linorder) list))"
  by (induction xs) (auto simp: less_eq_prod_def)

lemma facets_sorted: "sorted (facets fs collection)"
  by (simp add: facets_def sorted_wrt_filter)

lemma snippets_sorted: "sorted (map (\<lambda>x. fst (snd x)) (snippets fs collection f))"
  by (simp add: snippets_def comp_def sorted_wrt_filter)

lemma combinations_nth:
  assumes "k < length (combinations fs collection)" "j < length (facets fs collection)"
  shows "combinations fs collection ! k ! j =
     snippets fs collection (facets fs collection ! j) !
       ((k div prod_list (map (\<lambda>f. length (snippets fs collection f)) (drop (Suc j) (facets fs collection))))
        mod length (snippets fs collection (facets fs collection ! j)))"
proof -
  have "j < length (facet_configs fs collection)" using assms(2) by (simp add: facet_configs_def)
  from itertools_product_nth [OF assms(1) [unfolded combinations_def] this] assms(2)
  show ?thesis by (simp add: combinations_def facet_configs_def drop_map comp_def)
qed

lemma combinations_stable:
  assumes "isdir fs' = isdir fs" "\<forall>p. mset (listdir fs' p) = mset (listdir fs p)"
  shows "combinations fs' collection = combinations fs collection"
proof -
  have s: "sort (listdir fs' p) = sort (listdir fs p)" for p
    using assms(2) by (intro sort_cong_mset) simp
  have f: "facets fs' collection = facets fs collection"
    by (simp add: facets_def s assms(1))
  have "snippets fs' collection f = snippets fs collection f" for f
    by (simp add: snippets_def s)
  then have "snippets fs' collection = snippets fs collection" by (rule ext)
  with f show ?thesis by (simp add: combinations_def facet_configs_def)
qed

lemma processing_order_perm:
  "mset cs' = mset cs \<Longrightarrow> processing_order munge cs' = processing_order munge cs"
  unfolding processing_order_def by (rule sort_cong_mset) (metis mset_map)

lemma empty_pool:
  assumes "f \<in> set (facets fs collection)" "filter is_snippet (listdir fs (path_join collection [f])) = []"
  shows "combinations fs collection = []"
proof -
  have "length (combinations fs collection) = 0"
    unfolding combinations_length using assms by (auto simp: prod_list_zero_iff)
  then show ?thesis by simp
qed

lemma no_facets: "facets fs collection = [] \<Longrightarrow> combinations fs collection = [[]]"
  by (simp add: combinations_def facet_configs_def itertools_product_def)

section \<open>The claims about the combinations\<close>

text \<open>
  Claim C1, as amended.  A collection whose sorted non-hidden facet directories
  \<open>F1..Fn\<close> list \<open>k1..kn\<close> entries that pass the snippet test (not hidden, ending in
  \<open>.yaml\<close>) yields exactly \<open>k1 \<times> ... \<times> kn\<close> combinations.  When no directory
  listing repeats a name the combinations are pairwise distinct, and when moreover no
  snippet name contains a space their job descriptions are pairwise distinct.
\<close>

theorem C1_combination_count_and_distinct:
  "length (combinations fs collection) =
     prod_list (map (\<lambda>f. length (filter is_snippet (listdir fs (path_join collection [f]))))
       (facets fs collection))
   \<and> ((\<forall>f \<in> set (facets fs collection). distinct (listdir fs (path_join collection [f]))) \<longrightarrow>
        distinct (combinations fs collection)
        \<and> ((\<forall>f \<in> set (facets fs collection).
              \<forall>n \<in> set (listdir fs (path_join collection [f])). is_snippet n \<longrightarrow> CHR '' '' \<notin> set n) \<longrightarrow>
            distinct (map (description cname) (combinations fs collection))))"
proof (intro conjI impI)
  show "length (combinations fs collection) =
     prod_list (map (\<lambda>f. length (filter is_snippet (listdir fs (path_join collection [f]))))
       (facets fs collection))"
    by (rule combinations_length)
next
  assume d: "\<forall>f \<in> set (facets fs collection). distinct (listdir fs (path_join collection [f]))"
  then show dc: "distinct (combinations fs collection)"
    by (intro combinations_distinct) simp
  assume nosp: "\<forall>f \<in> set (facets fs collection).
      \<forall>n \<in> set (listdir fs (path_join collection [f])). is_snippet n \<longrightarrow> CHR '' '' \<notin> set n"
  have "inj_on (description cname) (set (combinations fs collection))"
    by (rule inj_onI) (rule description_inj [OF _ _ nosp])
  with dc show "distinct (map (description cname) (combinations fs collection))"
    by (simp add: distinct_map)
qed

text \<open>
  The witness: the collection \<open>basic\<close> has \<open>2 \<times> 1\<close> combinations, with distinct
  descriptions.
\<close>

theorem C1_witness:
  "length (combinations fs_basic ''basic'') = 2 \<and>
   distinct (combinations fs_basic ''basic'') \<and>
   distinct (map (description ''basic'') (combinations fs_basic ''basic''))"
proof -
  have f: "facets fs_basic ''basic'' = [''clusters'', ''tasks'']" by code_simp
  have 1: "\<forall>f \<in> set (facets fs_basic ''basic''). distinct (listdir fs_basic (path_join ''basic'' [f]))"
    unfolding f by (simp add: fs_basic_def path_join_def join2_def startswith_def endswith_def)
  have 2: "\<forall>f \<in> set (facets fs_basic ''basic'').
      \<forall>n \<in> set (listdir fs_basic (path_join ''basic'' [f])). is_snippet n \<longrightarrow> CHR '' '' \<notin> set n"
    unfolding f by (simp add: fs_basic_def path_join_def join2_def startswith_def endswith_def)
  have 3: "prod_list (map (\<lambda>f. length (filter is_snippet (listdir fs_basic (path_join ''basic'' [f]))))
       (facets fs_basic ''basic'')) = 2"
    unfolding f by (simp add: fs_basic_def path_join_def join2_def startswith_def endswith_def is_snippet_def)
  from C1_combination_count_and_distinct [of fs_basic "''basic''" "''basic''"] 1 2 3
  show ?thesis by simp
qed

text \<open>
  Claim C1 as it was stated, with descriptions that are always pairwise distinct, fails:
  a description joins \<open>facet:name\<close> pairs with spaces, and a snippet name may itself
  contain a space.  In the collection \<open>c\<close> of \<^const>\<open>fs_spaces\<close> the first and the last
  of the four combinations have the same description.
\<close>

theorem C1_descriptions_not_distinct:
  "map (description ''c'') (combinations fs_spaces ''c'') =
     [''collection:c a:x.yaml b:y.yaml b:z.yaml'',
      ''collection:c a:x.yaml b:z.yaml'',
      ''collection:c a:x.yaml b:y.yaml b:y.yaml b:z.yaml'',
      ''collection:c a:x.yaml b:y.yaml b:z.yaml'']
   \<and> \<not> distinct (map (description ''c'') (combinations fs_spaces ''c''))"
  by code_simp

text \<open>
  Claim C2.  The facets are sorted, the snippets of each facet are sorted by name, and
  combination number \<open>k\<close> takes for facet number \<open>j\<close> the snippet whose index is the
  digit \<open>j\<close> of \<open>k\<close> in the mixed radix of the snippet counts: the index of the last
  facet is \<open>k mod kn\<close> and varies fastest.  The order is stable: it does not depend on the
  order in which the operating system lists the directories.  The collection \<open>basic\<close>
  yields its two descriptions in the order stated.
\<close>

theorem C2_product_order:
  "sorted (facets fs collection)
   \<and> (\<forall>f. sorted (map (\<lambda>x. fst (snd x)) (snippets fs collection f)))
   \<and> (\<forall>k j. k < length (combinations fs collection) \<longrightarrow> j < length (facets fs collection) \<longrightarrow>
         combinations fs collection ! k ! j =
           snippets fs collection (facets fs collection ! j) !
             ((k div prod_list (map (\<lambda>f. length (snippets fs collection f))
                                  (drop (Suc j) (facets fs collection))))
              mod length (snippets fs collection (facets fs collection ! j))))
   \<and> (\<forall>fs'. isdir fs' = isdir fs \<longrightarrow> (\<forall>p. mset (listdir fs' p) = mset (listdir fs p)) \<longrightarrow>
         combinations fs' collection = combinations fs collection)
   \<and> map (description (basename (safepath_munge ''basic''))) (combinations fs_basic ''basic'') =
       [''collection:basic clusters:fixed.yaml tasks:smoke.yaml'',
        ''collection:basic clusters:three.yaml tasks:smoke.yaml'']"
proof (intro conjI allI impI)
  show "sorted (facets fs collection)" by (rule facets_sorted)
next
  fix f show "sorted (map (\<lambda>x. fst (snd x)) (snippets fs collection f))" by (rule snippets_sorted)
next
  fix k j assume "k < length (combinations fs collection)" "j < length (facets fs collection)"
  then show "combinations fs collection ! k ! j =
           snippets fs collection (facets fs collection ! j) !
             ((k div prod_list (map (\<lambda>f. length (snippets fs collection f))
                                  (drop (Suc j) (facets fs collection))))
              mod length (snippets fs collection (facets fs collection ! j)))"
    by (rule combinations_nth)
next
  fix fs' :: fs assume "isdir fs' = isdir fs" "\<forall>p. mset (listdir fs' p) = mset (listdir fs p)"
  then show "combinations fs' collection = combinations fs collection"
    by (rule combinations_stable)
next
  show "map (description (basename (safepath_munge ''basic''))) (combinations fs_basic ''basic'') =
       [''collection:basic clusters:fixed.yaml tasks:smoke.yaml'',
        ''collection:basic clusters:three.yaml tasks:smoke.yaml'']"
    by code_simp
qed

text \<open>
  The witness: combination 1 of \<open>basic\<close> is (\<open>three.yaml\<close>, \<open>smoke.yaml\<close>), and listing
  the directories in another order gives the same combinations.
\<close>

theorem C2_witness:
  "combinations fs_basic ''basic'' ! 1 ! 0 = (''clusters'', ''three.yaml'', ''basic/clusters/three.yaml'')
   \<and> combinations fs_basic ''basic'' ! 1 ! 1 = (''tasks'', ''smoke.yaml'', ''basic/tasks/smoke.yaml'')
   \<and> combinations fs_basic_sorted ''basic'' = combinations fs_basic ''basic''"
proof -
  note c2 = C2_product_order [of fs_basic "''basic''"]
  have len: "(1::nat) < length (combinations fs_basic ''basic'')"
    "(0::nat) < length (facets fs_basic ''basic'')" "(1::nat) < length (facets fs_basic ''basic'')"
    by code_simp+
  have r0: "snippets fs_basic ''basic'' (facets fs_basic ''basic'' ! 0) !
             ((1 div prod_list (map (\<lambda>f. length (snippets fs_basic ''basic'' f))
                                  (drop (Suc 0) (facets fs_basic ''basic''))))
              mod length (snippets fs_basic ''basic'' (facets fs_basic ''basic'' ! 0)))
           = (''clusters'', ''three.yaml'', ''basic/clusters/three.yaml'')"
    by code_simp
  have r1: "snippets fs_basic ''basic'' (facets fs_basic ''basic'' ! 1) !
             ((1 div prod_list (map (\<lambda>f. length (snippets fs_basic ''basic'' f))
                                  (drop (Suc 1) (facets fs_basic ''basic''))))
              mod length (snippets fs_basic ''basic'' (facets fs_basic ''basic'' ! 1)))
           = (''tasks'', ''smoke.yaml'', ''basic/tasks/smoke.yaml'')"
    by code_simp
  have d: "isdir fs_basic_sorted = isdir fs_basic"
    by (simp add: fs_basic_sorted_def fs_basic_def)
  have m: "\<forall>p. mset (listdir fs_basic_sorted p) = mset (listdir fs_basic p)"
    by (simp add: fs_basic_sorted_def fs_basic_def)
  from c2 have nth: "\<And>k j. k < length (combinations fs_basic ''basic'') \<Longrightarrow> j < length (facets fs_basic ''basic'') \<Longrightarrow>
         combinations fs_basic ''basic'' ! k ! j =
           snippets fs_basic ''basic'' (facets fs_basic ''basic'' ! j) !
             ((k div prod_list (map (\<lambda>f. length (snippets fs_basic ''basic'' f))
                                  (drop (Suc j) (facets fs_basic ''basic''))))
              mod length (snippets fs_basic ''basic'' (facets fs_basic ''basic'' ! j)))"
    by blast
  from c2 have st: "\<And>fs'. isdir fs' = isdir fs_basic \<Longrightarrow> (\<forall>p. mset (listdir fs' p) = mset (listdir fs_basic p)) \<Longrightarrow>
         combinations fs' ''basic'' = combinations fs_basic ''basic''"
    by blast
  from nth [OF len(1) len(2)] r0
  have "combinations fs_basic ''basic'' ! 1 ! 0 = (''clusters'', ''three.yaml'', ''basic/clusters/three.yaml'')"
    by (simp only:)
  moreover from nth [OF len(1) len(3)] r1
  have "combinations fs_basic ''basic'' ! 1 ! 1 = (''tasks'', ''smoke.yaml'', ''basic/tasks/smoke.yaml'')"
    by (simp only:)
  moreover from st [OF d m] have "combinations fs_basic_sorted ''basic'' = combinations fs_basic ''basic''" .
  ultimately show ?thesis by simp
qed

section \<open>The claims about the dispatch\<close>

text \<open>
  Claim C3, as amended.  The collections are processed in ascending order of their
  (path, name) pairs, hence in ascending order of their paths, whatever the order in
  which they were given: the processing order is sorted, is a permutation of the pairs
  given, is the same for every permutation of the command line, and a run that ends
  normally has issued the commands of the collections in that order, then the command
  that ends the suite.
\<close>

theorem C3_processing_order:
  "sorted (processing_order munge cs)
   \<and> sorted (map fst (processing_order munge cs))
   \<and> mset (processing_order munge cs) = mset (map (\<lambda>c. (c, basename (munge c))) cs)
   \<and> (\<forall>cs'. mset cs' = mset cs \<longrightarrow> processing_order munge cs' = processing_order munge cs)
   \<and> (\<forall>fs sched args tr. collections args = cs \<longrightarrow> main munge fs sched args = (tr, Inr ()) \<longrightarrow>
         tr = concat (map (collection_args fs (base_arg args) (config args))
                       (processing_order munge cs)) @ [last_arg args])"
proof (intro conjI allI impI)
  show s: "sorted (processing_order munge cs)" by (simp add: processing_order_def)
  then show "sorted (map fst (processing_order munge cs))" by (rule sorted_fst)
  show "mset (processing_order munge cs) = mset (map (\<lambda>c. (c, basename (munge c))) cs)"
    by (simp add: processing_order_def)
next
  fix cs' :: "string list" assume "mset cs' = mset cs"
  then show "processing_order munge cs' = processing_order munge cs"
    by (rule processing_order_perm)
next
  fix fs :: fs and sched :: scheduler and args :: suite_args and tr
  assume c: "collections args = cs" and m: "main munge fs sched args = (tr, Inr ())"
  have "list_all (isdir fs) (collections args)"
  proof (rule ccontr)
    assume "\<not> list_all (isdir fs) (collections args)"
    with m show False by (simp add: main_def)
  qed
  from main_result [OF this m] c
  show "tr = concat (map (collection_args fs (base_arg args) (config args))
                       (processing_order munge cs)) @ [last_arg args]"
    by simp
qed

text \<open>
  The witness: the two collections given in either order, and the run over them.
\<close>

theorem C3_witness:
  "processing_order safepath_munge [''a/y'', ''b/x''] = processing_order safepath_munge [''b/x'', ''a/y'']
   \<and> fst (main safepath_munge fs_two accept args_two) =
       concat (map (collection_args fs_two (base_arg args_two) (config args_two))
                 (processing_order safepath_munge [''b/x'', ''a/y''])) @ [last_arg args_two]"
proof -
  note c3 = C3_processing_order [of safepath_munge "[''b/x'', ''a/y'']"]
  have m: "mset [''a/y'', ''b/x''] = mset [''b/x'', ''a/y'']" by simp
  have c: "collections args_two = [''b/x'', ''a/y'']" by (simp add: args_two_def)
  have r: "main safepath_munge fs_two accept args_two = (fst (main safepath_munge fs_two accept args_two), Inr ())"
    by code_simp
  from c3 m have 1: "processing_order safepath_munge [''a/y'', ''b/x''] = processing_order safepath_munge [''b/x'', ''a/y'']"
    by blast
  from c3 c r have 2: "fst (main safepath_munge fs_two accept args_two) =
       concat (map (collection_args fs_two (base_arg args_two) (config args_two))
                 (processing_order safepath_munge [''b/x'', ''a/y''])) @ [last_arg args_two]"
    by blast
  from 1 2 show ?thesis by simp
qed

text \<open>
  Claim C3 as it was stated, with the collections in ascending order of their names,
  fails: line 100 sorts the pairs (path, name), so the path decides.  Collections
  \<open>b/x\<close> and \<open>a/y\<close> are processed as \<open>y\<close>, then \<open>x\<close>.
\<close>

theorem C3_not_sorted_by_name:
  "map snd (processing_order safepath_munge [''b/x'', ''a/y'']) = [''y'', ''x'']
   \<and> \<not> sorted (map snd (processing_order safepath_munge [''b/x'', ''a/y'']))
   \<and> main safepath_munge fs_two accept args_two =
       ([[''bin/teuthology-schedule'', ''--name'', ''nightly'', ''--description'', ''collection:y '', ''--''],
         [''bin/teuthology-schedule'', ''--name'', ''nightly'', ''--description'', ''collection:x '', ''--''],
         [''bin/teuthology-schedule'', ''--name'', ''nightly'', ''--last-in-suite'']], Inr ())"
  by code_simp





text \<open>
  Claim C5.  A collection with a facet that holds no snippet has no combination: its
  loop issues no invocation and raises nothing, and the run goes on with the
  collections that follow.  A collection without facets has exactly one combination,
  the empty one: its description is the collection name alone, and its loop issues
  exactly the one job of that description, with no snippet path.
\<close>

theorem C5_empty_and_no_facets:
  "((\<exists>f \<in> set (facets fs collection). filter is_snippet (listdir fs (path_join collection [f])) = []) \<longrightarrow>
      combinations fs collection = []
      \<and> schedule_combos sched base conf cname (combinations fs collection) tr = (tr, Inr ())
      \<and> schedule_collections fs sched base conf ((collection, cname) # rest) tr =
          schedule_collections fs sched base conf rest tr)
   \<and> (facets fs collection = [] \<longrightarrow>
      combinations fs collection = [[]]
      \<and> description cname [] = ''collection:'' @ cname @ '' ''
      \<and> schedule_combos sched base conf cname (combinations fs collection) tr =
          check_call sched tr (base @ [''--description'', ''collection:'' @ cname @ '' '', ''--''] @ conf))"
proof (intro conjI impI)
  assume "\<exists>f \<in> set (facets fs collection). filter is_snippet (listdir fs (path_join collection [f])) = []"
  then show e: "combinations fs collection = []" by (auto intro: empty_pool)
  then show "schedule_combos sched base conf cname (combinations fs collection) tr = (tr, Inr ())"
    by simp
  from e show "schedule_collections fs sched base conf ((collection, cname) # rest) tr =
          schedule_collections fs sched base conf rest tr"
    by simp
next
  assume "facets fs collection = []"
  then show o: "combinations fs collection = [[]]" by (rule no_facets)
  show "description cname [] = ''collection:'' @ cname @ '' ''" by (simp add: description_def)
  from o check_call_cases [of sched tr "combo_arg base conf cname []"]
  show "schedule_combos sched base conf cname (combinations fs collection) tr =
          check_call sched tr (base @ [''--description'', ''collection:'' @ cname @ '' '', ''--''] @ conf)"
    by (auto simp: combo_arg_def description_def)
qed

text \<open>
  The witness: the collection \<open>e\<close>, whose facet \<open>tasks\<close> holds no snippet, and the
  collection \<open>z\<close>, which has no facet.
\<close>

theorem C5_witness:
  "combinations fs_empty ''e'' = []
   \<and> schedule_combos accept [''sched''] [] ''e'' (combinations fs_empty ''e'') [] = ([], Inr ())
   \<and> combinations fs_empty ''z'' = [[]]
   \<and> schedule_combos accept [''sched''] [] ''z'' (combinations fs_empty ''z'') [] =
       ([[''sched'', ''--description'', ''collection:z '', ''--'']], Inr ())"
proof -
  note c5e = C5_empty_and_no_facets [of fs_empty "''e''" accept "[''sched'']" "[]" "''e''" "[]" "[]"]
  note c5z = C5_empty_and_no_facets [of fs_empty "''z''" accept "[''sched'']" "[]" "''z''" "[]" "[]"]
  have e: "\<exists>f \<in> set (facets fs_empty ''e''). filter is_snippet (listdir fs_empty (path_join ''e'' [f])) = []"
    by code_simp
  have z: "facets fs_empty ''z'' = []" by code_simp
  have k: "check_call accept [] ([''sched''] @ [''--description'', ''collection:'' @ ''z'' @ '' '', ''--''] @ [])
      = ([[''sched'', ''--description'', ''collection:z '', ''--'']], Inr ())"
    by (simp add: check_call_def accept_def)
  from c5e e have 1: "combinations fs_empty ''e'' = []
     \<and> schedule_combos accept [''sched''] [] ''e'' (combinations fs_empty ''e'') [] = ([], Inr ())"
    by blast
  from c5z z have 2: "combinations fs_empty ''z'' = [[]]"
    and "schedule_combos accept [''sched''] [] ''z'' (combinations fs_empty ''z'') [] =
      check_call accept [] ([''sched''] @ [''--description'', ''collection:'' @ ''z'' @ '' '', ''--''] @ [])"
    by blast+
  with k have 3: "schedule_combos accept [''sched''] [] ''z'' (combinations fs_empty ''z'') [] =
       ([[''sched'', ''--description'', ''collection:z '', ''--'']], Inr ())"
    by (simp only:)
  from 1 2 3 show ?thesis by blast
qed

section \<open>Properties of the aggregation\<close>

lemma poll_no_wait: "tmo \<le> 0 \<Longrightarrow> poll ex dir tmo starttime running st = (running, st)"
  by (subst poll.simps) simp

lemma running_tests_set:
  "set (running_tests fs dir) = {f \<in> set (listdir fs dir). is_unfinished fs dir f}"
  by (auto simp: running_tests_def is_unfinished_def)

lemma running_tests_sorted: "sorted (running_tests fs dir)"
  by (simp add: running_tests_def sorted_wrt_filter)

lemma py_format_Inr: "py_format d = Inr t \<Longrightarrow> t = py_str d"
  by (cases d) (auto split: if_splits)




lemma aggregate_job_load_error:
  assumes "finished fs dir j" "load_summary fs dir j = Inl e"
  shows "aggregate_job fs dir st j = Inl e"
  using assms by (simp add: aggregate_job_def finished_def)



lemma aggregate_job_descriptions:
  "aggregate_job fs dir st j = Inr st' \<Longrightarrow>
   descriptions st' = descriptions st @ (if finished fs dir j then [job_line fs dir j] else [])"
  by (auto simp add: aggregate_job_def finished_def job_line_def desc_line_def summary_def Let_def
      dest!: py_format_Inr split: if_splits option.splits sum.splits)

lemma aggregate_job_unfinished:
  "aggregate_job fs dir st j = Inr st' \<Longrightarrow>
   unfinished st' = unfinished st @ (if is_unfinished fs dir j then [j] else [])"
  by (auto simp add: aggregate_job_def is_unfinished_def Let_def
      split: if_splits option.splits sum.splits)

lemma aggregate_job_num_failures:
  "aggregate_job fs dir st j = Inr st' \<Longrightarrow>
   num_failures st' = num_failures st + (if failed fs dir j then 1 else 0)"
  by (auto simp add: aggregate_job_def failed_def finished_def summary_def Let_def
      split: if_splits option.splits sum.splits)

lemma aggregate_job_failures:
  "aggregate_job fs dir st j = Inr st' \<Longrightarrow>
   length (failures st') = length (failures st) + (if failed fs dir j then 1 else 0)
     + (if failed fs dir j \<and> has_reason fs dir j then 1 else 0)"
  by (auto simp add: aggregate_job_def failed_def finished_def has_reason_def summary_def Let_def
      split: if_splits option.splits sum.splits)

lemma aggregate_job_passed:
  "aggregate_job fs dir st j = Inr st' \<Longrightarrow>
   passed st' = passed st @ (if finished fs dir j \<and> \<not> failed fs dir j then [job_line fs dir j] else [])"
  by (auto simp add: aggregate_job_def failed_def finished_def job_line_def desc_line_def summary_def Let_def
      dest!: py_format_Inr split: if_splits option.splits sum.splits)

lemma aggregate_jobs_descriptions:
  "aggregate_jobs fs dir js st = Inr rep \<Longrightarrow>
   descriptions rep = descriptions st @ map (job_line fs dir) (filter (finished fs dir) js)"
proof (induction js arbitrary: st)
  case Nil
  then show ?case by simp
next
  case (Cons j js)
  then obtain st' where s: "aggregate_job fs dir st j = Inr st'"
    and r: "aggregate_jobs fs dir js st' = Inr rep"
    by (cases "aggregate_job fs dir st j") simp_all
  from Cons.IH [OF r] aggregate_job_descriptions [OF s] show ?case by simp
qed

lemma aggregate_jobs_unfinished:
  "aggregate_jobs fs dir js st = Inr rep \<Longrightarrow>
   unfinished rep = unfinished st @ filter (is_unfinished fs dir) js"
proof (induction js arbitrary: st)
  case Nil
  then show ?case by simp
next
  case (Cons j js)
  then obtain st' where s: "aggregate_job fs dir st j = Inr st'"
    and r: "aggregate_jobs fs dir js st' = Inr rep"
    by (cases "aggregate_job fs dir st j") simp_all
  from Cons.IH [OF r] aggregate_job_unfinished [OF s] show ?case by simp
qed

lemma aggregate_jobs_passed:
  "aggregate_jobs fs dir js st = Inr rep \<Longrightarrow>
   passed rep = passed st @ map (job_line fs dir) (filter (\<lambda>j. finished fs dir j \<and> \<not> failed fs dir j) js)"
proof (induction js arbitrary: st)
  case Nil
  then show ?case by simp
next
  case (Cons j js)
  then obtain st' where s: "aggregate_job fs dir st j = Inr st'"
    and r: "aggregate_jobs fs dir js st' = Inr rep"
    by (cases "aggregate_job fs dir st j") simp_all
  from Cons.IH [OF r] aggregate_job_passed [OF s] show ?case by simp
qed

lemma aggregate_jobs_num_failures:
  "aggregate_jobs fs dir js st = Inr rep \<Longrightarrow>
   num_failures rep = num_failures st + length (filter (failed fs dir) js)"
proof (induction js arbitrary: st)
  case Nil
  then show ?case by simp
next
  case (Cons j js)
  then obtain st' where s: "aggregate_job fs dir st j = Inr st'"
    and r: "aggregate_jobs fs dir js st' = Inr rep"
    by (cases "aggregate_job fs dir st j") simp_all
  from Cons.IH [OF r] aggregate_job_num_failures [OF s] show ?case by simp
qed

lemma aggregate_jobs_failures:
  "aggregate_jobs fs dir js st = Inr rep \<Longrightarrow>
   length (failures rep) = length (failures st) + length (filter (failed fs dir) js)
     + length (filter (\<lambda>j. failed fs dir j \<and> has_reason fs dir j) js)"
proof (induction js arbitrary: st)
  case Nil
  then show ?case by simp
next
  case (Cons j js)
  then obtain st' where s: "aggregate_job fs dir st j = Inr st'"
    and r: "aggregate_jobs fs dir js st' = Inr rep"
    by (cases "aggregate_job fs dir st j") simp_all
  from Cons.IH [OF r] aggregate_job_failures [OF s] show ?case by simp
qed

lemma show_nat_head: "\<exists>d ds. show_nat n = d # ds \<and> d \<in> set ''0123456789''"
proof (induction n rule: show_nat.induct)
  case (1 n)
  show ?case
  proof (cases "n < 10")
    case True
    then have "''0123456789'' ! n \<in> set ''0123456789''" by (intro nth_mem) simp
    with True show ?thesis by (subst show_nat.simps) simp
  next
    case False
    with 1 obtain d ds where "show_nat (n div 10) = d # ds" "d \<in> set ''0123456789''" by blast
    with False show ?thesis by (subst show_nat.simps) simp
  qed
qed

lemma show_nat_not_All: "show_nat n @ rest \<noteq> CHR ''A'' # zs"
proof -
  from show_nat_head [of n] obtain d ds where "show_nat n = d # ds" "d \<in> set ''0123456789''" by blast
  then show ?thesis by auto
qed

section \<open>The claims about the results\<close>

text \<open>
  Claim C6, as amended.  With a timeout of 0 (the default) or less the loop of line 231
  is not entered: the poller returns at once, has not slept and has not warned, and the
  jobs it holds as still running are those it started with, the sorted non-hidden
  entries of the archive whose summary did not exist when it listed them.
\<close>

theorem C6_no_wait:
  assumes "tmo \<le> 0"
  shows "await world dir tmo starttime =
           (running_tests (world starttime) dir, \<lparr>now = starttime, sleeps = 0, warned = False\<rparr>)
    \<and> sorted (running_tests (world starttime) dir)
    \<and> set (running_tests (world starttime) dir) =
        {f \<in> set (listdir (world starttime) dir).
           \<not> startswith f ''.'' \<and> \<not> exists (world starttime) (summary_fn dir f)}"
  using assms
  by (simp add: await_def poll_no_wait running_tests_sorted running_tests_set is_unfinished_def)

text \<open>The witness: the scenario archive, without waiting.\<close>

theorem C6_witness:
  "await (\<lambda>t. fs_archive) ''arch'' 0 0 = ([''2''], \<lparr>now = 0, sleeps = 0, warned = False\<rparr>)"
proof -
  have r: "running_tests fs_archive ''arch'' = [''2'']" by code_simp
  have "(0::int) \<le> 0" by simp
  from C6_no_wait [OF this, of "\<lambda>t. fs_archive" "''arch''" 0] show ?thesis
    by (simp only: r)
qed

text \<open>
  Claim C6 as it was stated, with all non-hidden entries returned unexamined, fails:
  lines 225--229 test every entry for its summary before the loop, and keep only those
  without one.  Of the jobs 1, 2 and 3 of the scenario archive only job 2 is held as
  running.
\<close>

theorem C6_not_all_entries:
  "fst (await (\<lambda>t. fs_archive) ''arch'' 0 0) = [''2'']
   \<and> filter (\<lambda>f. \<not> startswith f ''.'') (sort (listdir fs_archive ''arch'')) = [''1'', ''2'', ''3'']
   \<and> fst (await (\<lambda>t. fs_archive) ''arch'' 0 0)
       \<noteq> filter (\<lambda>f. \<not> startswith f ''.'') (sort (listdir fs_archive ''arch''))"
  by code_simp




text \<open>
  Claim C8, as amended.  When the aggregation completes, the descriptions list holds
  exactly one line \<open>jobId: description\<close> for every finished job, passed or failed, in
  the sorted order of the archive; the unfinished jobs are listed by their identifiers
  in \<open>unfinished\<close>, in the same order, and contribute no line to the descriptions.
\<close>

theorem C8_descriptions:
  assumes "aggregate fs dir = Inr rep"
  shows "descriptions rep = map (job_line fs dir) (filter (finished fs dir) (all_jobs fs dir))
    \<and> (\<forall>j. job_line fs dir j = j @ '': '' @ py_str (the (summary fs dir j ''description'')))
    \<and> sorted (all_jobs fs dir)
    \<and> unfinished rep = filter (is_unfinished fs dir) (all_jobs fs dir)
    \<and> passed rep = map (job_line fs dir)
         (filter (\<lambda>j. finished fs dir j \<and> \<not> failed fs dir j) (all_jobs fs dir))"
proof -
  from assms have a: "aggregate_jobs fs dir (all_jobs fs dir) empty_report = Inr rep"
    by (simp add: aggregate_def)
  show ?thesis
    using aggregate_jobs_descriptions [OF a] aggregate_jobs_unfinished [OF a]
      aggregate_jobs_passed [OF a]
    by (simp add: empty_report_def job_line_def desc_line_def all_jobs_def)
qed

text \<open>The witness: the two finished jobs of the scenario archive.\<close>

theorem C8_witness:
  "descriptions (projr (aggregate fs_archive ''arch'')) =
     [''1: collection:basic clusters:fixed.yaml tasks:smoke.yaml'',
      ''3: collection:basic clusters:three.yaml tasks:smoke.yaml'']"
proof -
  have a: "aggregate fs_archive ''arch'' = Inr (projr (aggregate fs_archive ''arch''))"
    by code_simp
  have d: "map (job_line fs_archive ''arch'') (filter (finished fs_archive ''arch'') (all_jobs fs_archive ''arch''))
    = [''1: collection:basic clusters:fixed.yaml tasks:smoke.yaml'',
      ''3: collection:basic clusters:three.yaml tasks:smoke.yaml'']"
    by code_simp
  from C8_descriptions [OF a] have "descriptions (projr (aggregate fs_archive ''arch'')) =
     map (job_line fs_archive ''arch'') (filter (finished fs_archive ''arch'') (all_jobs fs_archive ''arch''))"
    by blast
  then show ?thesis by (simp only: d)
qed

text \<open>
  Claim C8 as it was stated, with a line for every classified job, fails for the
  unfinished jobs: line 269 continues with the next entry before line 279 appends.  Job
  2 of the scenario archive is classified as unfinished and the descriptions list has
  the two lines of jobs 1 and 3 only.
\<close>

theorem C8_unfinished_has_no_line:
  "aggregate fs_archive ''arch'' =
     Inr \<lparr>descriptions =
            [''1: collection:basic clusters:fixed.yaml tasks:smoke.yaml'',
             ''3: collection:basic clusters:three.yaml tasks:smoke.yaml''],
          failures =
            [''3: collection:basic clusters:three.yaml tasks:smoke.yaml'', ''    timeout''],
          num_failures = 1,
          unfinished = [''2''],
          passed = [''1: collection:basic clusters:fixed.yaml tasks:smoke.yaml'']\<rparr>
   \<and> is_unfinished fs_archive ''arch'' ''2''
   \<and> length (descriptions (projr (aggregate fs_archive ''arch''))) = 2"
  by code_simp

text \<open>
  Claim C9.  The subject is the full-success subject exactly when the failures list and
  the unfinished list are both empty; otherwise it gives the counts of failed, possibly
  hung and passed tests.  The message that \<open>results\<close> sends carries that subject, for
  the report aggregated when the wait ends.
\<close>

theorem C9_subject:
  "(subject suite rep = ''All tests passed in '' @ suite @ ''!''
      \<longleftrightarrow> failures rep = [] \<and> unfinished rep = [])
   \<and> (\<not> (failures rep = [] \<and> unfinished rep = []) \<longrightarrow>
        subject suite rep =
          show_nat (num_failures rep) @ '' failed, '' @
          show_nat (length (unfinished rep)) @ '' possibly hung, and '' @
          show_nat (length (passed rep)) @ '' passed tests in '' @ suite)
   \<and> (\<forall>world starttime sender args msg.
        results world starttime sender args = Inr (Some msg) \<longrightarrow>
        (\<exists>r. aggregate (world (now (snd (await world (archive_dir args) (r_timeout args) starttime))))
               (archive_dir args) = Inr r
             \<and> msg_subject msg = subject (r_name args) r))"
proof (intro conjI allI impI)
  have "show_nat (num_failures rep) @ '' failed, '' @
          show_nat (length (unfinished rep)) @ '' possibly hung, and '' @
          show_nat (length (passed rep)) @ '' passed tests in '' @ suite
        \<noteq> ''All tests passed in '' @ suite @ ''!''"
    using show_nat_not_All [of "num_failures rep"] by simp
  then show "subject suite rep = ''All tests passed in '' @ suite @ ''!''
      \<longleftrightarrow> failures rep = [] \<and> unfinished rep = []"
    by (simp add: subject_def)
next
  assume "\<not> (failures rep = [] \<and> unfinished rep = [])"
  then show "subject suite rep =
          show_nat (num_failures rep) @ '' failed, '' @
          show_nat (length (unfinished rep)) @ '' possibly hung, and '' @
          show_nat (length (passed rep)) @ '' passed tests in '' @ suite"
    by (simp add: subject_def)
next
  fix world :: "int \<Rightarrow> fs" and starttime sender and args :: results_args and msg
  assume "results world starttime sender args = Inr (Some msg)"
  then show "\<exists>r. aggregate (world (now (snd (await world (archive_dir args) (r_timeout args) starttime))))
               (archive_dir args) = Inr r
             \<and> msg_subject msg = subject (r_name args) r"
    by (auto simp: results_def split: prod.splits sum.splits if_splits)
qed

text \<open>
  The witness: the report of the scenario archive, and the empty report.
\<close>

theorem C9_witness:
  "subject ''nightly'' (projr (aggregate fs_archive ''arch'')) =
     ''1 failed, 1 possibly hung, and 1 passed tests in nightly''
   \<and> subject ''nightly'' empty_report = ''All tests passed in nightly!''"
proof -
  let ?r = "projr (aggregate fs_archive ''arch'')"
  note a = C9_subject [of "''nightly''" ?r]
  note b = C9_subject [of "''nightly''" empty_report]
  have 1: "\<not> (failures ?r = [] \<and> unfinished ?r = [])" by code_simp
  have 2: "show_nat (num_failures ?r) @ '' failed, '' @
          show_nat (length (unfinished ?r)) @ '' possibly hung, and '' @
          show_nat (length (passed ?r)) @ '' passed tests in '' @ ''nightly''
        = ''1 failed, 1 possibly hung, and 1 passed tests in nightly''"
    by code_simp
  have 3: "failures empty_report = [] \<and> unfinished empty_report = []"
    by (simp add: empty_report_def)
  from a 1 have "subject ''nightly'' ?r = show_nat (num_failures ?r) @ '' failed, '' @
          show_nat (length (unfinished ?r)) @ '' possibly hung, and '' @
          show_nat (length (passed ?r)) @ '' passed tests in '' @ ''nightly''"
    by blast
  then have A: "subject ''nightly'' ?r = ''1 failed, 1 possibly hung, and 1 passed tests in nightly''"
    by (simp only: 2)
  from b 3 have "subject ''nightly'' empty_report = ''All tests passed in '' @ ''nightly'' @ ''!''"
    by blast
  then have B: "subject ''nightly'' empty_report = ''All tests passed in nightly!''"
    by simp
  from A B show ?thesis by (rule conjI)
qed

text \<open>
  Claim C10.  When the aggregation completes, \<open>num_failures\<close> is the number of failed
  jobs; the failures list is longer by one line for each failed job that has a
  \<open>failure_reason\<close>; and the count of failed tests in the subject is the number of
  failed jobs.
\<close>

theorem C10_failed_count:
  assumes "aggregate fs dir = Inr rep"
  shows "num_failures rep = length (filter (failed fs dir) (all_jobs fs dir))
    \<and> length (failures rep) =
        num_failures rep
        + length (filter (\<lambda>j. failed fs dir j \<and> has_reason fs dir j) (all_jobs fs dir))
    \<and> (failures rep \<noteq> [] \<or> unfinished rep \<noteq> [] \<longrightarrow>
        subject suite rep =
          show_nat (length (filter (failed fs dir) (all_jobs fs dir))) @ '' failed, '' @
          show_nat (length (unfinished rep)) @ '' possibly hung, and '' @
          show_nat (length (passed rep)) @ '' passed tests in '' @ suite)"
proof -
  from assms have a: "aggregate_jobs fs dir (all_jobs fs dir) empty_report = Inr rep"
    by (simp add: aggregate_def)
  have n: "num_failures rep = length (filter (failed fs dir) (all_jobs fs dir))"
    using aggregate_jobs_num_failures [OF a] by (simp add: empty_report_def)
  have f: "length (failures rep) =
        num_failures rep
        + length (filter (\<lambda>j. failed fs dir j \<and> has_reason fs dir j) (all_jobs fs dir))"
    using aggregate_jobs_failures [OF a] n by (simp add: empty_report_def)
  from n f show ?thesis by (simp add: subject_def)
qed

text \<open>
  The witness: the scenario archive has one failed job, with a reason: two lines in the
  failures list, and \<open>1 failed\<close> in the subject.
\<close>

theorem C10_witness:
  "num_failures (projr (aggregate fs_archive ''arch'')) = 1
   \<and> length (failures (projr (aggregate fs_archive ''arch''))) = 1 + 1
   \<and> subject ''nightly'' (projr (aggregate fs_archive ''arch'')) =
       ''1 failed, 1 possibly hung, and 1 passed tests in nightly''"
proof -
  let ?r = "projr (aggregate fs_archive ''arch'')"
  have a: "aggregate fs_archive ''arch'' = Inr ?r" by code_simp
  note c = C10_failed_count [OF a, of "''nightly''"]
  have 1: "length (filter (failed fs_archive ''arch'') (all_jobs fs_archive ''arch'')) = 1" by code_simp
  have 2: "length (filter (\<lambda>j. failed fs_archive ''arch'' j \<and> has_reason fs_archive ''arch'' j)
             (all_jobs fs_archive ''arch'')) = 1" by code_simp
  have 3: "failures ?r \<noteq> [] \<or> unfinished ?r \<noteq> []" by code_simp
  have 4: "show_nat 1 @ '' failed, '' @
          show_nat (length (unfinished ?r)) @ '' possibly hung, and '' @
          show_nat (length (passed ?r)) @ '' passed tests in '' @ ''nightly''
        = ''1 failed, 1 possibly hung, and 1 passed tests in nightly''"
    by code_simp
  from c have A: "num_failures ?r = 1" by (simp only: 1)
  from c have "length (failures ?r) = num_failures ?r + 1" by (simp only: 1 2)
  with A have B: "length (failures ?r) = 1 + 1" by simp
  from c 3 have "subject ''nightly'' ?r = show_nat 1 @ '' failed, '' @
          show_nat (length (unfinished ?r)) @ '' possibly hung, and '' @
          show_nat (length (passed ?r)) @ '' passed tests in '' @ ''nightly''"
    by (simp only: 1)
  then have C: "subject ''nightly'' ?r = ''1 failed, 1 possibly hung, and 1 passed tests in nightly''"
    by (simp only: 4)
  from A B C show ?thesis by blast
qed

end
